theory Spec2Isabelle
  imports Main
begin

section \<open>Python built-ins used by the decoding core\<close>

text \<open>
  A Python \<open>str\<close> is modelled as a HOL \<open>string\<close>, one \<open>char\<close> per code point below 256.
  Python integers are unbounded, so they are \<open>int\<close>; lengths are \<open>nat\<close>.
  The only exception the core can raise on well-typed arguments is \<open>ValueError\<close>
  (from \<open>int(text, base)\<close>); it is a value of the error type.
\<close>

datatype py_error = ValueError

subsection \<open>Slicing\<close>

text \<open>
  \<open>s[a:b]\<close> with integer bounds: a negative bound counts from the end, and every bound
  is clamped into \<open>0..len(s)\<close>; nothing is raised out of range.
\<close>

definition py_index :: "nat \<Rightarrow> int \<Rightarrow> nat" where
  "py_index n i =
     (if i < 0 then (if i + int n < 0 then 0 else nat (i + int n))
      else (if int n < i then n else nat i))"

definition py_slice :: "'a list \<Rightarrow> int \<Rightarrow> int \<Rightarrow> 'a list" where
  "py_slice s a b =
     (let lo = py_index (length s) a; hi = py_index (length s) b
      in take (hi - lo) (drop lo s))"

text \<open>\<open>s[:b]\<close> and \<open>s[a:]\<close>: the missing bound is the start, respectively the end.\<close>

definition py_slice_to :: "'a list \<Rightarrow> int \<Rightarrow> 'a list" where
  "py_slice_to s b = py_slice s 0 b"

definition py_slice_from :: "'a list \<Rightarrow> int \<Rightarrow> 'a list" where
  "py_slice_from s a = py_slice s a (int (length s))"

subsection \<open>Text helpers\<close>

text \<open>\<open>str.isspace\<close> on one character (code points below 256).\<close>

definition py_isspace :: "char \<Rightarrow> bool" where
  "py_isspace c = (c \<in> set [CHR 0x09, CHR 0x0A, CHR 0x0B, CHR 0x0C, CHR 0x0D,
                              CHR 0x1C, CHR 0x1D, CHR 0x1E, CHR 0x1F, CHR 0x20,
                              CHR 0x85, CHR 0xA0])"

text \<open>\<open>s.strip()\<close>: whitespace removed at both ends.\<close>

definition py_strip :: "string \<Rightarrow> string" where
  "py_strip s = rev (dropWhile py_isspace (rev (dropWhile py_isspace s)))"

text \<open>\<open>s.replace(c, "")\<close> for a one-character \<open>c\<close>: every occurrence is deleted.\<close>

definition py_remove :: "char \<Rightarrow> string \<Rightarrow> string" where
  "py_remove c s = filter (\<lambda>x. x \<noteq> c) s"

text \<open>\<open>s.count(c)\<close> for a one-character \<open>c\<close>.\<close>

fun py_count :: "string \<Rightarrow> char \<Rightarrow> nat" where
  "py_count [] c = 0"
| "py_count (x # xs) c = (if x = c then 1 else 0) + py_count xs c"

text \<open>\<open>s.lower()\<close>: the upper-case letters below 256 are A-Z and 0xC0-0xDE without 0xD7.\<close>

definition py_lower_char :: "char \<Rightarrow> char" where
  "py_lower_char c =
     (let k = (of_char c :: nat)
      in if (65 \<le> k \<and> k \<le> 90) \<or> (192 \<le> k \<and> k \<le> 222 \<and> k \<noteq> 215)
         then char_of (k + 32) else c)"

definition py_lower :: "string \<Rightarrow> string" where
  "py_lower s = map py_lower_char s"

subsection \<open>\<open>int(text, base)\<close>\<close>

text \<open>
  The value of a digit character: 0-9, then a-z and A-Z as 10-35; any other character
  is no digit in any base (37).
\<close>

definition digit_value :: "char \<Rightarrow> nat" where
  "digit_value c =
     (let k = (of_char c :: nat)
      in if 48 \<le> k \<and> k \<le> 57 then k - 48
         else if 97 \<le> k \<and> k \<le> 122 then k - 87
         else if 65 \<le> k \<and> k \<le> 90 then k - 55
         else 37)"

text \<open>
  The whitespace \<open>int\<close> skips around the number: the ASCII blanks, and the two
  spaces above 127 (which the conversion turns into blanks first).
\<close>

definition int_space :: "char \<Rightarrow> bool" where
  "int_space c = (c \<in> set [CHR 0x09, CHR 0x0A, CHR 0x0B, CHR 0x0C, CHR 0x0D, CHR 0x20,
                             CHR 0x85, CHR 0xA0])"

text \<open>
  The digit scan: digits below the base are accumulated, a single underscore may stand
  between two digits, two in a row or one at the end is an error. The scan stops at
  the first other character and returns the value and the rest of the text.
\<close>

fun scan_digits :: "nat \<Rightarrow> char \<Rightarrow> nat \<Rightarrow> string \<Rightarrow> (nat \<times> string) option" where
  "scan_digits base prev acc [] = (if prev = CHR ''_'' then None else Some (acc, []))"
| "scan_digits base prev acc (c # cs) =
     (if c = CHR ''_'' then (if prev = CHR ''_'' then None else scan_digits base c acc cs)
      else if digit_value c < base then scan_digits base c (acc * base + digit_value c) cs
      else if prev = CHR ''_'' then None
      else Some (acc, c # cs))"

text \<open>The optional sign: the rest of the text and whether the number is negative.\<close>

fun int_sign :: "string \<Rightarrow> bool \<times> string" where
  "int_sign [] = (False, [])"
| "int_sign (c # cs) =
     (if c = CHR ''+'' then (False, cs)
      else if c = CHR ''-'' then (True, cs)
      else (False, c # cs))"

text \<open>
  The optional prefix of the base (\<open>0x\<close> for 16, \<open>0o\<close> for 8, \<open>0b\<close> for 2, either case),
  after which one underscore is allowed.
\<close>

definition int_prefix :: "nat \<Rightarrow> string \<Rightarrow> string" where
  "int_prefix base s =
     (case s of
        c0 # c1 # rest \<Rightarrow>
          if c0 = CHR ''0'' \<and>
             ((base = 16 \<and> (c1 = CHR ''x'' \<or> c1 = CHR ''X'')) \<or>
              (base = 8 \<and> (c1 = CHR ''o'' \<or> c1 = CHR ''O'')) \<or>
              (base = 2 \<and> (c1 = CHR ''b'' \<or> c1 = CHR ''B'')))
          then (case rest of u # rest' \<Rightarrow> if u = CHR ''_'' then rest' else rest | [] \<Rightarrow> rest)
          else s
      | _ \<Rightarrow> s)"

definition py_int :: "string \<Rightarrow> nat \<Rightarrow> py_error + int" where
  "py_int text base =
     (let (neg, s1) = int_sign (dropWhile int_space text);
          s2 = int_prefix base s1
      in case s2 of
           [] \<Rightarrow> Inl ValueError
         | c # cs \<Rightarrow>
             if c = CHR ''_'' then Inl ValueError
             else (case scan_digits base (CHR 0x00) 0 s2 of
                     None \<Rightarrow> Inl ValueError
                   | Some (v, rest) \<Rightarrow>
                       if length rest = length s2 then Inl ValueError
                       else if dropWhile int_space rest \<noteq> [] then Inl ValueError
                       else Inr (if neg then - int v else int v)))"

text \<open>The number a text of digits denotes in a base, most significant digit first.\<close>

definition digits_value :: "nat \<Rightarrow> string \<Rightarrow> nat" where
  "digits_value base s = foldl (\<lambda>a c. a * base + digit_value c) 0 s"

subsection \<open>\<open>bin\<close>, \<open>zfill\<close> and upper-case hexadecimal formatting\<close>

definition bit_char :: "nat \<Rightarrow> char" where
  "bit_char d = (if d = 0 then CHR ''0'' else CHR ''1'')"

function bin_digits :: "nat \<Rightarrow> string" where
  "bin_digits n = (if n < 2 then [bit_char n] else bin_digits (n div 2) @ [bit_char (n mod 2)])"
  by pat_completeness auto
termination
  by (relation "measure (\<lambda>n. n)") auto

declare bin_digits.simps [simp del]

definition py_bin :: "int \<Rightarrow> string" where
  "py_bin n = (if n < 0 then ''-0b'' @ bin_digits (nat (- n)) else ''0b'' @ bin_digits (nat n))"

text \<open>\<open>s.zfill(width)\<close>: zeros on the left up to the width, after a leading sign.\<close>

definition py_zfill :: "string \<Rightarrow> nat \<Rightarrow> string" where
  "py_zfill s width =
     (if width \<le> length s then s
      else (case s of
              [] \<Rightarrow> replicate width (CHR ''0'')
            | c # cs \<Rightarrow>
                if c = CHR ''+'' \<or> c = CHR ''-''
                then c # replicate (width - length s) (CHR ''0'') @ cs
                else replicate (width - length s) (CHR ''0'') @ s))"

definition hex_char :: "nat \<Rightarrow> char" where
  "hex_char d = (''0123456789ABCDEF'' ! d)"

function hex_digits :: "nat \<Rightarrow> string" where
  "hex_digits n = (if n < 16 then [hex_char n] else hex_digits (n div 16) @ [hex_char (n mod 16)])"
  by pat_completeness auto
termination
  by (relation "measure (\<lambda>n. n)") auto

declare hex_digits.simps [simp del]

text \<open>\<open>format(n, "X")\<close>.\<close>

definition py_format_X :: "int \<Rightarrow> string" where
  "py_format_X n = (if n < 0 then CHR ''-'' # hex_digits (nat (- n)) else hex_digits (nat n))"

section \<open>Input handling\<close>

definition HEX_CHARS :: "char set" where
  "HEX_CHARS = set ''0123456789abcdefABCDEF''"

definition clean_input :: "string \<Rightarrow> string" where
  "clean_input s = py_strip s"

definition is_binary :: "string \<Rightarrow> bool" where
  "is_binary s = (list_all (\<lambda>ch. ch \<in> set ''01'') s \<and> length s > 0)"

definition is_hex :: "string \<Rightarrow> bool" where
  "is_hex s = (list_all (\<lambda>ch. ch \<in> HEX_CHARS) s \<and> length s > 0)"

text \<open>\<open>None\<close> is the value returned from the \<open>except ValueError\<close> branch.\<close>

definition hex_to_binary :: "string \<Rightarrow> string option" where
  "hex_to_binary hex_string =
     (case py_int hex_string 16 of
        Inl ValueError \<Rightarrow> None
      | Inr n \<Rightarrow> Some (py_zfill (py_slice_from (py_bin n) 2) (length hex_string * 4)))"

text \<open>
  The text that \<open>process_input\<close> classifies: stripped, without blanks, hyphens and
  underscores, and without a leading \<open>0x\<close> or \<open>0X\<close>.
\<close>

definition py_startswith :: "string \<Rightarrow> string \<Rightarrow> bool" where
  "py_startswith s p = (take (length p) s = p)"

definition cleaned :: "string \<Rightarrow> string" where
  "cleaned input_string =
     (let s = clean_input input_string;
          s = py_remove (CHR ''_'') (py_remove (CHR ''-'') (py_remove (CHR '' '') s))
      in if py_startswith s ''0x'' \<or> py_startswith s ''0X'' then py_slice_from s 2 else s)"

text \<open>The result is the pair the source returns: the bit string and the error message.\<close>

definition process_input :: "string \<Rightarrow> string option \<times> string option" where
  "process_input input_string =
     (let s = cleaned input_string
      in if is_binary s then (Some s, None)
         else if is_hex s then
           (case hex_to_binary s of
              None \<Rightarrow> (None, Some ''Invalid hex input.'')
            | Some b \<Rightarrow> (Some b, None))
         else (None, Some ''Input must be hex or binary (e.g., 0x1A2B, 1100101).''))"

section \<open>Formats\<close>

text \<open>
  A normalised format is the dictionary \<open>_normalize_formats\<close> builds: the bit length, the
  fields (name to inclusive range, in insertion order) and the parity coverage. The
  coverage is read with \<open>get\<close>, so it may be missing; \<open>verify_parity\<close> also accepts the
  older dictionary shape with the keys \<open>even\<close> and \<open>odd\<close>. A rule's \<open>type\<close> and \<open>ranges\<close>
  are read with \<open>get\<close> and a default, so each is optional.
\<close>

record parity_rule =
  rule_type :: "string option"
  rule_ranges :: "(int \<times> int) list option"

datatype coverage =
    NoCoverage
  | CoverageDict "(int \<times> int) option" "(int \<times> int) option"
  | CoverageList "parity_rule list"

record fmt_obj =
  bit_length :: int
  fmt_fields :: "(string \<times> (int \<times> int)) list"
  parity_coverage :: coverage

text \<open>Assignment \<open>d[k] = v\<close> on a dictionary kept as an association list in insertion order.\<close>

fun dict_set :: "('k \<times> 'v) list \<Rightarrow> 'k \<Rightarrow> 'v \<Rightarrow> ('k \<times> 'v) list" where
  "dict_set [] k v = [(k, v)]"
| "dict_set ((k', v') # d) k v = (if k' = k then (k, v) # d else (k', v') # dict_set d k v)"

section \<open>Decoding core\<close>

text \<open>Inclusive end index extraction (0-based).\<close>

definition extract_bits :: "string \<Rightarrow> int \<Rightarrow> int \<Rightarrow> string" where
  "extract_bits binary_string start end' = py_slice binary_string start (end' + 1)"

definition bits_to_int :: "string \<Rightarrow> py_error + int" where
  "bits_to_int bits = (if bits \<noteq> [] then py_int bits 2 else Inr 0)"

record field_value =
  fv_bits :: string
  fv_int :: int
  fv_hex :: string
  fv_len :: int
  fv_range :: "int \<times> int"

text \<open>
  The loop of \<open>extract_fields\<close>, with the dictionary built so far as accumulator.
  A \<open>ValueError\<close> of \<open>bits_to_int\<close> leaves the function.
\<close>

fun extract_fields_loop ::
  "string \<Rightarrow> (string \<times> (int \<times> int)) list \<Rightarrow> (string \<times> field_value) list
     \<Rightarrow> py_error + (string \<times> field_value) list" where
  "extract_fields_loop binary_string [] result = Inr result"
| "extract_fields_loop binary_string ((field, (start, end')) # rest) result =
     (let bits = extract_bits binary_string start end'
      in case bits_to_int bits of
           Inl err \<Rightarrow> Inl err
         | Inr v \<Rightarrow>
             extract_fields_loop binary_string rest
               (dict_set result field
                  \<lparr>fv_bits = bits, fv_int = v, fv_hex = ''0x'' @ py_format_X v,
                   fv_len = end' - start + 1, fv_range = (start, end')\<rparr>))"

definition extract_fields ::
  "string \<Rightarrow> fmt_obj \<Rightarrow> py_error + (string \<times> field_value) list" where
  "extract_fields binary_string fmt = extract_fields_loop binary_string (fmt_fields fmt) []"

text \<open>
  The entry that \<open>extract_fields\<close> stores for a field when the text is a bit string: the
  slice, its value in base 2, the value in upper-case hexadecimal, and the nominal
  length and range of the field.
\<close>

definition field_of_bits :: "string \<Rightarrow> int \<Rightarrow> int \<Rightarrow> field_value" where
  "field_of_bits b start end' =
     \<lparr>fv_bits = extract_bits b start end',
      fv_int = int (digits_value 2 (extract_bits b start end')),
      fv_hex = ''0x'' @ py_format_X (int (digits_value 2 (extract_bits b start end'))),
      fv_len = end' - start + 1,
      fv_range = (start, end')\<rparr>"

definition parity_even_bit_needed :: "string \<Rightarrow> int" where
  "parity_even_bit_needed bits =
     (let ones = py_count bits (CHR ''1'') in if ones mod 2 = 0 then 0 else 1)"

definition parity_odd_bit_needed :: "string \<Rightarrow> int" where
  "parity_odd_bit_needed bits =
     (let ones = py_count bits (CHR ''1'') in if ones mod 2 = 0 then 1 else 0)"

text \<open>
  One entry of the result of \<open>verify_parity\<close>. \<open>pc_actual\<close> and \<open>pc_ok\<close> hold Python's
  \<open>None\<close> as \<open>None\<close>.
\<close>

record parity_check =
  pc_label :: string
  pc_type :: string
  pc_coverage :: "int \<times> int"
  pc_expected :: int
  pc_actual :: "int option"
  pc_ok :: "bool option"
  pc_data_len :: nat

text \<open>\<open>not coverage\<close>: a missing value, an empty dictionary and an empty list are false.\<close>

fun coverage_empty :: "coverage \<Rightarrow> bool" where
  "coverage_empty NoCoverage = True"
| "coverage_empty (CoverageDict ev od) = (ev = None \<and> od = None)"
| "coverage_empty (CoverageList rs) = (rs = [])"

text \<open>The rules: a dictionary gives one rule for each of the keys \<open>even\<close> and \<open>odd\<close> it has.\<close>

fun coverage_rules :: "coverage \<Rightarrow> parity_rule list" where
  "coverage_rules NoCoverage = []"
| "coverage_rules (CoverageDict ev od) =
     (case ev of None \<Rightarrow> []
        | Some r \<Rightarrow> [\<lparr>rule_type = Some ''even'', rule_ranges = Some [r]\<rparr>]) @
     (case od of None \<Rightarrow> []
        | Some r \<Rightarrow> [\<lparr>rule_type = Some ''odd'', rule_ranges = Some [r]\<rparr>])"
| "coverage_rules (CoverageList rs) = rs"

definition parity_entry :: "string \<Rightarrow> string \<Rightarrow> int \<times> int \<Rightarrow> parity_check" where
  "parity_entry binary_string typ se =
     (let data_bits = extract_bits binary_string (fst se) (snd se);
          expected = (if typ = ''even'' then parity_even_bit_needed data_bits
                      else parity_odd_bit_needed data_bits)
      in \<lparr>pc_label = (if typ = ''even'' then ''Even Parity'' else ''Odd Parity''),
          pc_type = typ,
          pc_coverage = se,
          pc_expected = expected,
          pc_actual = None,
          pc_ok = None,
          pc_data_len = length data_bits\<rparr>)"

text \<open>\<open>rule.get("type", "even").lower()\<close> and \<open>rule.get("ranges", [])\<close>.\<close>

definition rule_typ :: "parity_rule \<Rightarrow> string" where
  "rule_typ rule = py_lower (case rule_type rule of None \<Rightarrow> ''even'' | Some t \<Rightarrow> t)"

definition rule_rngs :: "parity_rule \<Rightarrow> (int \<times> int) list" where
  "rule_rngs rule = (case rule_ranges rule of None \<Rightarrow> [] | Some rs \<Rightarrow> rs)"

text \<open>The inner loop over the ranges of one rule, and the outer loop over the rules.\<close>

fun verify_ranges ::
  "string \<Rightarrow> string \<Rightarrow> (int \<times> int) list \<Rightarrow> parity_check list \<Rightarrow> parity_check list" where
  "verify_ranges binary_string typ [] result = result"
| "verify_ranges binary_string typ (se # rest) result =
     verify_ranges binary_string typ rest (result @ [parity_entry binary_string typ se])"

fun verify_rules ::
  "string \<Rightarrow> parity_rule list \<Rightarrow> parity_check list \<Rightarrow> parity_check list" where
  "verify_rules binary_string [] result = result"
| "verify_rules binary_string (rule # rest) result =
     (let typ = rule_typ rule
      in verify_rules binary_string rest
           (verify_ranges binary_string typ (rule_rngs rule) result))"

definition verify_parity :: "string \<Rightarrow> fmt_obj \<Rightarrow> parity_check list" where
  "verify_parity binary_string fmt =
     (let coverage = parity_coverage fmt
      in if coverage_empty coverage then []
         else verify_rules binary_string (coverage_rules coverage) [])"

section \<open>Matching, strict mode and slicing\<close>

text \<open>
  \<open>App._detect_formats\<close>: the catalogue \<open>self.FORMATS\<close> is a dictionary, iterated in
  insertion order; it is a parameter here.
\<close>

type_synonym catalog = "(string \<times> fmt_obj) list"

fun detect_loop :: "nat \<Rightarrow> catalog \<Rightarrow> catalog \<Rightarrow> catalog \<Rightarrow> catalog \<times> catalog" where
  "detect_loop n [] exact compatible = (exact, compatible)"
| "detect_loop n ((name, fmt) # rest) exact compatible =
     (let L = bit_length fmt
      in if int n = L then detect_loop n rest (exact @ [(name, fmt)]) compatible
         else if int n > L then detect_loop n rest exact (compatible @ [(name, fmt)])
         else detect_loop n rest exact compatible)"

definition detect_formats :: "catalog \<Rightarrow> string \<Rightarrow> catalog \<times> catalog" where
  "detect_formats FORMATS binary_string = detect_loop (length binary_string) FORMATS [] []"

text \<open>
  Truth value of \<open>r.get("ok", True)\<close>: every entry has the key \<open>ok\<close>, so the default is
  never taken, and \<open>None\<close> and \<open>False\<close> are both false.
\<close>

definition ok_truth :: "parity_check \<Rightarrow> bool" where
  "ok_truth r = (case pc_ok r of None \<Rightarrow> False | Some v \<Rightarrow> v)"

text \<open>\<open>App._parity_all_ok\<close>.\<close>

definition parity_all_ok :: "string \<Rightarrow> fmt_obj \<Rightarrow> bool" where
  "parity_all_ok binary_string fmt =
     (let pv = verify_parity binary_string fmt
      in if pv = [] then True else list_all ok_truth pv)"

text \<open>
  \<open>App.on_calculate\<close> after the input has been read: the calls of \<open>_render_format\<close> it
  makes, as triples of the bits, the displayed name and the format. The check box
  \<open>show_fails\<close> and the radio button \<open>slice_mode\<close> are parameters.
\<close>

definition use_bits :: "string \<Rightarrow> string \<Rightarrow> int \<Rightarrow> string" where
  "use_bits slice_mode binary_string L =
     (if slice_mode = ''left'' then py_slice_to binary_string L
      else py_slice_from binary_string (- L))"

fun render_exact :: "bool \<Rightarrow> string \<Rightarrow> catalog \<Rightarrow> (string \<times> string \<times> fmt_obj) list" where
  "render_exact show_fails binary_string [] = []"
| "render_exact show_fails binary_string ((name, fmt) # rest) =
     (if \<not> show_fails \<and> \<not> parity_all_ok binary_string fmt
      then render_exact show_fails binary_string rest
      else (binary_string, name, fmt) # render_exact show_fails binary_string rest)"

fun render_compatible ::
  "bool \<Rightarrow> string \<Rightarrow> string \<Rightarrow> catalog \<Rightarrow> (string \<times> string \<times> fmt_obj) list" where
  "render_compatible show_fails slice_mode binary_string [] = []"
| "render_compatible show_fails slice_mode binary_string ((name, fmt) # rest) =
     (let L = bit_length fmt;
          bits = use_bits slice_mode binary_string L
      in if \<not> show_fails \<and> \<not> parity_all_ok bits fmt
         then render_compatible show_fails slice_mode binary_string rest
         else (bits,
               name @ (if slice_mode = ''left'' then '' (leftmost)'' else '' (rightmost)''),
               fmt) # render_compatible show_fails slice_mode binary_string rest)"

definition on_calculate ::
  "catalog \<Rightarrow> bool \<Rightarrow> string \<Rightarrow> string \<Rightarrow> (string \<times> string \<times> fmt_obj) list" where
  "on_calculate FORMATS show_fails slice_mode binary_string =
     (let (exact, compatible) = detect_formats FORMATS binary_string
      in render_exact show_fails binary_string exact @
         render_compatible show_fails slice_mode binary_string compatible)"

section \<open>Formats of the default catalogue\<close>

text \<open>
  Two entries of \<open>DEFAULT_FORMATS\<close> after normalisation: the 26-bit format with an even
  and an odd parity rule, and the 32-bit serial number, which has no parity rule.
\<close>

definition H10301 :: fmt_obj where
  "H10301 = \<lparr>bit_length = 26,
     fmt_fields = [(''Parity L'', (0, 0)), (''Facility'', (1, 8)), (''Card'', (9, 24)),
                   (''Parity R'', (25, 25))],
     parity_coverage = CoverageList
       [\<lparr>rule_type = Some ''even'', rule_ranges = Some [(1, 12)]\<rparr>,
        \<lparr>rule_type = Some ''odd'', rule_ranges = Some [(13, 24)]\<rparr>]\<rparr>"

definition CSN32 :: fmt_obj where
  "CSN32 = \<lparr>bit_length = 32, fmt_fields = [(''CSN'', (0, 31))],
     parity_coverage = CoverageList []\<rparr>"

section \<open>The parity evaluator\<close>

lemma verify_ranges_append:
  "verify_ranges b typ rs result = result @ map (parity_entry b typ) rs"
  by (induction rs arbitrary: result) simp_all

lemma verify_rules_append:
  "verify_rules b rules result =
     result @ concat (map (\<lambda>rule. map (parity_entry b (rule_typ rule)) (rule_rngs rule)) rules)"
  by (induction rules arbitrary: result) (simp_all add: verify_ranges_append)

lemma verify_parity_entries:
  "r \<in> set (verify_parity b fmt) \<Longrightarrow>
     \<exists>rule \<in> set (coverage_rules (parity_coverage fmt)). \<exists>se \<in> set (rule_rngs rule).
       r = parity_entry b (rule_typ rule) se"
  by (auto simp: verify_parity_def verify_rules_append Let_def split: if_splits)

lemma parity_entry_unknown [simp]:
  "pc_actual (parity_entry b typ se) = None" "pc_ok (parity_entry b typ se) = None"
  by (simp_all add: parity_entry_def Let_def)

lemma verify_parity_H10301:
  "verify_parity ''11000000001000000000000011'' H10301 =
     [\<lparr>pc_label = ''Even Parity'', pc_type = ''even'', pc_coverage = (1, 12),
       pc_expected = 0, pc_actual = None, pc_ok = None, pc_data_len = 12\<rparr>,
      \<lparr>pc_label = ''Odd Parity'', pc_type = ''odd'', pc_coverage = (13, 24),
       pc_expected = 0, pc_actual = None, pc_ok = None, pc_data_len = 12\<rparr>]"
  by (simp add: verify_parity_def H10301_def parity_entry_def extract_bits_def py_slice_def
      py_index_def rule_typ_def rule_rngs_def py_lower_def py_lower_char_def
      parity_even_bit_needed_def parity_odd_bit_needed_def Let_def)

text \<open>
  Claim C8. Whatever the bit string and the format, every entry that \<open>verify_parity\<close>
  returns has \<open>actual = None\<close> and \<open>ok = None\<close>: the evaluator never states an actual
  parity bit or a verdict, whether or not the format has a field that holds a parity bit.
\<close>

theorem verify_parity_leaves_actual_and_ok_unset:
  "\<forall>r \<in> set (verify_parity b fmt). pc_actual r = None \<and> pc_ok r = None"
  using verify_parity_entries by fastforce

theorem verify_parity_leaves_actual_and_ok_unset_witness:
  "verify_parity ''11000000001000000000000011'' H10301 \<noteq> [] \<and>
   list_all (\<lambda>r. pc_actual r = None \<and> pc_ok r = None)
     (verify_parity ''11000000001000000000000011'' H10301)"
proof -
  have "list_all (\<lambda>r. pc_actual r = None \<and> pc_ok r = None)
          (verify_parity ''11000000001000000000000011'' H10301)"
    using verify_parity_leaves_actual_and_ok_unset [of "''11000000001000000000000011''" H10301]
    by (simp only: list_all_iff)
  moreover have "verify_parity ''11000000001000000000000011'' H10301 \<noteq> []"
    by (simp add: verify_parity_H10301)
  ultimately show ?thesis by simp
qed

section \<open>The overall verdict\<close>

lemma coverage_rules_empty: "coverage_rules cov = [] \<longleftrightarrow> coverage_empty cov"
  by (cases cov) (auto split: option.splits)

lemma ok_truth_entry: "\<not> ok_truth (parity_entry b typ se)"
  by (simp add: ok_truth_def)

text \<open>The verdict is positive exactly when there is no entry at all.\<close>

lemma parity_all_ok_iff: "parity_all_ok b fmt \<longleftrightarrow> verify_parity b fmt = []"
proof (cases "verify_parity b fmt")
  case Nil
  then show ?thesis by (simp add: parity_all_ok_def)
next
  case (Cons r rs)
  then have "r \<in> set (verify_parity b fmt)" by simp
  then have "\<not> ok_truth r" using verify_parity_entries ok_truth_entry by blast
  with Cons show ?thesis by (simp add: parity_all_ok_def)
qed

text \<open>
  Claim C7. A format without parity rules (a raw serial-number profile, for example)
  gives no entry for any bit string, and the overall verdict on it is positive.
\<close>

theorem no_parity_rules_no_checks:
  "coverage_rules (parity_coverage fmt) = [] \<Longrightarrow>
     verify_parity b fmt = [] \<and> parity_all_ok b fmt"
  by (simp add: verify_parity_def parity_all_ok_def coverage_rules_empty)

theorem no_parity_rules_no_checks_witness:
  "coverage_rules (parity_coverage CSN32) = [] \<and>
   verify_parity ''00000000000000000000000100101100'' CSN32 = [] \<and>
   parity_all_ok ''00000000000000000000000100101100'' CSN32"
proof -
  have h: "coverage_rules (parity_coverage CSN32) = []" by (simp add: CSN32_def)
  show ?thesis
    using h no_parity_rules_no_checks [OF h, of "''00000000000000000000000100101100''"]
    by simp
qed

text \<open>
  Claim C1. The verdict should be positive when the list of entries is empty or when
  every entry with a known status is a pass, an unknown status not counting against it.
  On the 26-bit format of the default catalogue both entries have the unknown status,
  and the verdict of \<open>_parity_all_ok\<close> is negative all the same: \<open>None\<close> is false in
  \<open>all(r.get("ok", True) for r in pv)\<close>.
\<close>

theorem parity_all_ok_rejects_unknown_status:
  "list_all (\<lambda>r. pc_ok r = None) (verify_parity ''11000000001000000000000011'' H10301) \<and>
   \<not> parity_all_ok ''11000000001000000000000011'' H10301"
  by (simp add: parity_all_ok_def verify_parity_H10301 ok_truth_def)

section \<open>Expected parity bits\<close>








section \<open>Matching by length\<close>

lemma detect_loop_filter:
  "detect_loop n cat exact compatible =
     (exact @ filter (\<lambda>(name, fmt). bit_length fmt = int n) cat,
      compatible @ filter (\<lambda>(name, fmt). bit_length fmt < int n) cat)"
  by (induction cat arbitrary: exact compatible) (auto simp: Let_def)

text \<open>
  Claim C5. \<open>_detect_formats\<close> splits the catalogue by the length of the bit string: the
  exact list is the catalogue restricted to the formats whose \<open>bit_length\<close> equals the
  length, the compatible list is the catalogue restricted to those whose \<open>bit_length\<close> is
  strictly smaller, each in the order of the catalogue; a longer format is in neither.
\<close>

theorem detect_formats_partition:
  "detect_formats FORMATS b =
     (filter (\<lambda>(name, fmt). bit_length fmt = int (length b)) FORMATS,
      filter (\<lambda>(name, fmt). bit_length fmt < int (length b)) FORMATS) \<and>
   (\<forall>(name, fmt) \<in> set FORMATS.
      ((name, fmt) \<in> set (fst (detect_formats FORMATS b)) \<longleftrightarrow>
         bit_length fmt = int (length b)) \<and>
      ((name, fmt) \<in> set (snd (detect_formats FORMATS b)) \<longleftrightarrow>
         bit_length fmt < int (length b)))"
  by (auto simp: detect_formats_def detect_loop_filter)

theorem detect_formats_partition_witness:
  "detect_formats [(''H10301 - 26-bit'', H10301), (''CSN - 32-bit (4-byte)'', CSN32)]
     ''11000000001000000000000011'' = ([(''H10301 - 26-bit'', H10301)], []) \<and>
   detect_formats [(''H10301 - 26-bit'', H10301), (''CSN - 32-bit (4-byte)'', CSN32)]
     ''1100000000100000000000001100000000000000'' =
       ([], [(''H10301 - 26-bit'', H10301), (''CSN - 32-bit (4-byte)'', CSN32)]) \<and>
   detect_formats [(''H10301 - 26-bit'', H10301), (''CSN - 32-bit (4-byte)'', CSN32)]
     ''1100000000'' = ([], [])"
proof -
  let ?cat = "[(''H10301 - 26-bit'', H10301), (''CSN - 32-bit (4-byte)'', CSN32)]"
  have "detect_formats ?cat ''11000000001000000000000011'' = ([(''H10301 - 26-bit'', H10301)], [])"
    using detect_formats_partition [of ?cat "''11000000001000000000000011''"]
    by (simp add: H10301_def CSN32_def)
  moreover have "detect_formats ?cat ''1100000000100000000000001100000000000000'' = ([], ?cat)"
    using detect_formats_partition [of ?cat "''1100000000100000000000001100000000000000''"]
    by (simp add: H10301_def CSN32_def)
  moreover have "detect_formats ?cat ''1100000000'' = ([], [])"
    using detect_formats_partition [of ?cat "''1100000000''"]
    by (simp add: H10301_def CSN32_def)
  ultimately show ?thesis by (simp only: simp_thms)
qed

section \<open>Slices of a longer input\<close>

lemma py_slice_to_take:
  "0 \<le> L \<Longrightarrow> L \<le> int (length b) \<Longrightarrow> py_slice_to b L = take (nat L) b"
  by (simp add: py_slice_to_def py_slice_def py_index_def)

lemma py_slice_from_neg_drop:
  "0 < L \<Longrightarrow> L \<le> int (length b) \<Longrightarrow> py_slice_from b (- L) = drop (length b - nat L) b"
  by (simp add: py_slice_from_def py_slice_def py_index_def nat_diff_distrib')

lemma render_exact_bits:
  "(bits, name, fmt) \<in> set (render_exact show_fails b exact) \<Longrightarrow>
     bits = b \<and> (name, fmt) \<in> set exact"
  by (induction exact) (auto split: if_splits)

lemma render_compatible_bits:
  "(bits, name, fmt) \<in> set (render_compatible show_fails mode b compatible) \<Longrightarrow>
     bits = use_bits mode b (bit_length fmt) \<and> fmt \<in> snd ` set compatible"
  by (induction compatible) (auto simp: Let_def split: if_splits)

lemma on_calculate_bits:
  assumes "(bits, name, fmt) \<in> set (on_calculate FORMATS show_fails mode b)"
  shows "(bit_length fmt = int (length b) \<and> bits = b) \<or>
         (bit_length fmt < int (length b) \<and> bits = use_bits mode b (bit_length fmt))"
proof -
  let ?ex = "filter (\<lambda>(name, fmt). bit_length fmt = int (length b)) FORMATS"
  let ?co = "filter (\<lambda>(name, fmt). bit_length fmt < int (length b)) FORMATS"
  from assms consider
      "(bits, name, fmt) \<in> set (render_exact show_fails b ?ex)"
    | "(bits, name, fmt) \<in> set (render_compatible show_fails mode b ?co)"
    by (auto simp: on_calculate_def detect_formats_def detect_loop_filter)
  then show ?thesis
  proof cases
    case 1
    from render_exact_bits [OF 1] show ?thesis by auto
  next
    case 2
    from render_compatible_bits [OF 2] show ?thesis by auto
  qed
qed

text \<open>
  Claim C6, amended. For a bit string \<open>b\<close> and a length \<open>L\<close> with \<open>0 < L < len(b)\<close>, the
  leftmost slice is the first \<open>L\<close> bits and the rightmost slice is the last \<open>L\<close> bits,
  each of exactly \<open>L\<close> bits. Every format that \<open>on_calculate\<close> renders is rendered on
  the whole bit string when its length matches exactly, and on the slice when the input
  is longer.
\<close>

theorem slices_of_compatible_match:
  "0 < L \<Longrightarrow> L < int (length b) \<Longrightarrow>
     use_bits ''left'' b L = take (nat L) b \<and>
     length (use_bits ''left'' b L) = nat L \<and>
     (mode \<noteq> ''left'' \<longrightarrow>
        use_bits mode b L = drop (length b - nat L) b \<and> length (use_bits mode b L) = nat L) \<and>
     (\<forall>(bits, name, fmt) \<in> set (on_calculate FORMATS show_fails mode b).
        (bit_length fmt = int (length b) \<and> bits = b) \<or>
        (bit_length fmt < int (length b) \<and> bits = use_bits mode b (bit_length fmt)))"
proof -
  assume L: "0 < L" "L < int (length b)"
  have left: "use_bits ''left'' b L = take (nat L) b"
    using L by (simp add: use_bits_def py_slice_to_take)
  have right: "use_bits mode b L = drop (length b - nat L) b" if "mode \<noteq> ''left''"
    using L that by (simp add: use_bits_def py_slice_from_neg_drop)
  have len: "length (take (nat L) b) = nat L" "length (drop (length b - nat L) b) = nat L"
    using L by auto
  have calc: "\<forall>(bits, name, fmt) \<in> set (on_calculate FORMATS show_fails mode b).
        (bit_length fmt = int (length b) \<and> bits = b) \<or>
        (bit_length fmt < int (length b) \<and> bits = use_bits mode b (bit_length fmt))"
    using on_calculate_bits by blast
  from left right len calc show ?thesis by simp
qed

theorem slices_of_compatible_match_witness:
  "(0::int) < 26 \<and> (26::int) < int (length ''110000000010000000000000110101'') \<and>
   use_bits ''left'' ''110000000010000000000000110101'' 26 = ''11000000001000000000000011'' \<and>
   use_bits ''right'' ''110000000010000000000000110101'' 26 = ''00000010000000000000110101'' \<and>
   on_calculate [(''H10301 - 26-bit'', H10301)] True ''right'' ''110000000010000000000000110101'' =
     [(''00000010000000000000110101'', ''H10301 - 26-bit (rightmost)'', H10301)] \<and>
   on_calculate [(''H10301 - 26-bit'', H10301)] True ''right'' ''11000000001000000000000011'' =
     [(''11000000001000000000000011'', ''H10301 - 26-bit'', H10301)]"
proof -
  have h1: "(0::int) < 26" by simp
  have h2: "(26::int) < int (length ''110000000010000000000000110101'')" by simp
  have "use_bits ''left'' ''110000000010000000000000110101'' 26 = ''11000000001000000000000011'' \<and>
        use_bits ''right'' ''110000000010000000000000110101'' 26 = ''00000010000000000000110101''"
    using slices_of_compatible_match [OF h1 h2, of "''right''" "[]" True] by simp
  moreover have "on_calculate [(''H10301 - 26-bit'', H10301)] True ''right''
        ''110000000010000000000000110101'' =
     [(''00000010000000000000110101'', ''H10301 - 26-bit (rightmost)'', H10301)]"
    by (simp add: on_calculate_def detect_formats_def use_bits_def py_slice_from_def
        py_slice_def py_index_def H10301_def)
  moreover have "on_calculate [(''H10301 - 26-bit'', H10301)] True ''right''
        ''11000000001000000000000011'' =
     [(''11000000001000000000000011'', ''H10301 - 26-bit'', H10301)]"
    by (simp add: on_calculate_def detect_formats_def H10301_def)
  ultimately show ?thesis using h1 h2 by simp
qed

text \<open>
  Claim C6 as stated also covers \<open>L = 0\<close>, which is smaller than the length of any
  non-empty input: there the rightmost slice \<open>b[-0:]\<close> is the whole string, not zero bits.
\<close>

theorem rightmost_slice_of_length_zero:
  "(0::int) < int (length ''101'') \<and> use_bits ''right'' ''101'' 0 = ''101'' \<and>
   length (use_bits ''right'' ''101'' 0) \<noteq> nat 0"
  by (simp add: use_bits_def py_slice_from_def py_slice_def py_index_def)

section \<open>Reading the input\<close>

lemma digit_value_special:
  "digit_value (CHR ''_'') = 37" "digit_value (CHR ''+'') = 37" "digit_value (CHR ''-'') = 37"
  "digit_value (CHR ''x'') = 33" "digit_value (CHR ''X'') = 33"
  "digit_value (CHR ''o'') = 24" "digit_value (CHR ''O'') = 24"
  "digit_value (CHR ''b'') = 11" "digit_value (CHR ''B'') = 11"
  by (simp_all add: digit_value_def)

lemma int_space_no_digit: "int_space c \<Longrightarrow> digit_value c = 37"
  by (auto simp: int_space_def digit_value_def)

lemma scan_digits_all:
  "list_all (\<lambda>c. digit_value c < base) s \<Longrightarrow> base \<le> 36 \<Longrightarrow> prev \<noteq> CHR ''_'' \<Longrightarrow>
     scan_digits base prev acc s = Some (foldl (\<lambda>a c. a * base + digit_value c) acc s, [])"
proof (induction s arbitrary: prev acc)
  case Nil
  then show ?case by simp
next
  case (Cons c cs)
  from Cons.prems have c: "digit_value c < base" and cs: "list_all (\<lambda>c. digit_value c < base) cs"
    by simp_all
  from c Cons.prems(2) have nu: "c \<noteq> CHR ''_''"
    using digit_value_special(1) by auto
  from Cons.IH [OF cs Cons.prems(2) nu] c nu show ?case by simp
qed

lemma int_prefix_digits:
  "list_all (\<lambda>c. digit_value c < base) s \<Longrightarrow> int_prefix base s = s"
  by (auto simp: int_prefix_def digit_value_special split: list.splits)

lemma py_int_digits:
  assumes "s \<noteq> []" "base \<le> 36" "list_all (\<lambda>c. digit_value c < base) s"
  shows "py_int s base = Inr (int (digits_value base s))"
proof -
  from assms obtain c cs where s: "s = c # cs" by (cases s) auto
  with assms have c: "digit_value c < base" by simp
  with assms(2) have "\<not> int_space c" "c \<noteq> CHR ''+''" "c \<noteq> CHR ''-''" "c \<noteq> CHR ''_''"
    using int_space_no_digit digit_value_special by auto
  then have sign: "int_sign (dropWhile int_space s) = (False, s)"
    by (simp add: s)
  have scan: "scan_digits base (CHR 0x00) 0 s = Some (digits_value base s, [])"
    using scan_digits_all [OF assms(3) assms(2), of "CHR 0x00" 0] by (simp add: digits_value_def)
  show ?thesis
    unfolding py_int_def sign int_prefix_digits [OF assms(3)] Let_def prod.case scan
    using \<open>c \<noteq> CHR ''_''\<close> by (simp add: s)
qed

lemma hex_char_digit: "c \<in> HEX_CHARS \<Longrightarrow> digit_value c < 16"
  by (auto simp: HEX_CHARS_def digit_value_def)

lemma bit_char_digit: "c \<in> set ''01'' \<Longrightarrow> digit_value c < 2"
  by (auto simp: digit_value_def)

lemma bit_char_hex: "c \<in> set ''01'' \<Longrightarrow> c \<in> HEX_CHARS"
  by (auto simp: HEX_CHARS_def)

lemma is_hex_digits: "is_hex s \<Longrightarrow> s \<noteq> [] \<and> list_all (\<lambda>c. digit_value c < 16) s"
  by (auto simp: is_hex_def list_all_iff hex_char_digit)

lemma bits_digits:
  "list_all (\<lambda>ch. ch \<in> set ''01'') s \<Longrightarrow> list_all (\<lambda>c. digit_value c < 2) s"
  unfolding list_all_iff using bit_char_digit by blast

lemma is_binary_is_hex: "is_binary s \<Longrightarrow> is_hex s"
  unfolding is_binary_def is_hex_def list_all_iff using bit_char_hex by blast

lemma py_int_hex: "is_hex s \<Longrightarrow> py_int s 16 = Inr (int (digits_value 16 s))"
  using is_hex_digits [of s] by (simp add: py_int_digits)

lemma py_int_bits:
  "s \<noteq> [] \<Longrightarrow> list_all (\<lambda>ch. ch \<in> set ''01'') s \<Longrightarrow>
     py_int s 2 = Inr (int (digits_value 2 s))"
  by (simp add: py_int_digits bits_digits)

lemma hex_to_binary_hex:
  "is_hex s \<Longrightarrow>
     hex_to_binary s =
       Some (py_zfill (py_slice_from (py_bin (int (digits_value 16 s))) 2) (length s * 4))"
  by (simp add: hex_to_binary_def py_int_hex)

lemma process_input_cases:
  "process_input x =
     (if is_binary (cleaned x) then (Some (cleaned x), None)
      else if is_hex (cleaned x)
      then (Some (py_zfill (py_slice_from (py_bin (int (digits_value 16 (cleaned x)))) 2)
                    (length (cleaned x) * 4)), None)
      else (None, Some ''Input must be hex or binary (e.g., 0x1A2B, 1100101).''))"
  by (simp add: process_input_def Let_def hex_to_binary_hex)

lemma not_is_hex: "\<not> is_hex s \<longleftrightarrow> s = [] \<or> (\<exists>c \<in> set s. c \<notin> HEX_CHARS)"
  by (auto simp: is_hex_def list_all_iff)

lemmas cleaned_eval = cleaned_def clean_input_def py_strip_def py_isspace_def py_remove_def
  py_startswith_def py_slice_from_def py_slice_def py_index_def Let_def

lemmas py_int_eval = py_int_def int_space_def int_prefix_def digit_value_def Let_def

lemma process_input_1A2B: "process_input ''0x1A2B'' = (Some ''0001101000101011'', None)"
proof -
  have c: "cleaned ''0x1A2B'' = ''1A2B''" by (simp add: cleaned_eval)
  have v: "digits_value 16 ''1A2B'' = 6699" by (simp add: digits_value_def digit_value_def)
  have d: "bin_digits 6699 = ''1101000101011''" by (simp add: bin_digits.simps bit_char_def)
  have z: "py_zfill ''1101000101011'' 16 = ''0001101000101011''"
    by (simp add: py_zfill_def numeral_3_eq_3)
  have s: "py_slice_from (py_bin 6699) 2 = ''1101000101011''"
    by (simp add: py_bin_def d py_slice_from_def py_slice_def py_index_def)
  show ?thesis
    unfolding process_input_cases c v
    by (simp add: is_binary_def is_hex_def HEX_CHARS_def s z)
qed

text \<open>
  Claim C10. For a non-empty text of hexadecimal digits \<open>hex_to_binary\<close> returns a bit
  string and not \<open>None\<close>, so \<open>process_input\<close> never returns the message "Invalid hex
  input."; it fails exactly when the cleaned text is empty or holds a character that is
  no hexadecimal digit, and then with the message "Input must be hex or binary ...".
\<close>

theorem invalid_hex_branch_unreachable:
  "(is_hex s \<longrightarrow> hex_to_binary s \<noteq> None) \<and>
   snd (process_input x) \<noteq> Some ''Invalid hex input.'' \<and>
   (fst (process_input x) = None \<longleftrightarrow>
      cleaned x = [] \<or> (\<exists>c \<in> set (cleaned x). c \<notin> HEX_CHARS)) \<and>
   (fst (process_input x) = None \<longrightarrow>
      snd (process_input x) = Some ''Input must be hex or binary (e.g., 0x1A2B, 1100101).'') \<and>
   (fst (process_input x) \<noteq> None \<longrightarrow> snd (process_input x) = None)"
proof -
  have a: "is_hex s \<longrightarrow> hex_to_binary s \<noteq> None"
    by (simp add: hex_to_binary_hex)
  have b: "snd (process_input x) \<noteq> Some ''Invalid hex input.''"
    by (simp add: process_input_cases)
  have c: "fst (process_input x) = None \<longleftrightarrow> \<not> is_hex (cleaned x)"
    using is_binary_is_hex [of "cleaned x"] by (auto simp: process_input_cases)
  have d: "fst (process_input x) = None \<longrightarrow>
      snd (process_input x) = Some ''Input must be hex or binary (e.g., 0x1A2B, 1100101).''"
    by (simp add: process_input_cases)
  have e: "fst (process_input x) \<noteq> None \<longrightarrow> snd (process_input x) = None"
    by (simp add: process_input_cases)
  from a b c d e show ?thesis unfolding not_is_hex by blast
qed

theorem invalid_hex_branch_unreachable_witness:
  "is_hex ''1A2B'' \<and> hex_to_binary ''1A2B'' \<noteq> None \<and>
   process_input ''0x1A2B'' = (Some ''0001101000101011'', None) \<and>
   cleaned ''0xG1'' = ''G1'' \<and> CHR ''G'' \<notin> HEX_CHARS \<and>
   process_input ''0xG1'' =
     (None, Some ''Input must be hex or binary (e.g., 0x1A2B, 1100101).'')"
proof -
  have h: "is_hex ''1A2B''" by (simp add: is_hex_def HEX_CHARS_def)
  have c: "cleaned ''0xG1'' = ''G1''" by (simp add: cleaned_eval)
  have g: "CHR ''G'' \<notin> HEX_CHARS" by (simp add: HEX_CHARS_def)
  note p = process_input_1A2B
  note t = invalid_hex_branch_unreachable [of "''1A2B''" "''0xG1''"]
  from t h have n: "hex_to_binary ''1A2B'' \<noteq> None" by blast
  from t c g have f: "fst (process_input ''0xG1'') = None" by simp
  with t have "snd (process_input ''0xG1'') =
      Some ''Input must be hex or binary (e.g., 0x1A2B, 1100101).''" by blast
  with f have q: "process_input ''0xG1'' =
      (None, Some ''Input must be hex or binary (e.g., 0x1A2B, 1100101).'')"
    by (simp add: prod_eq_iff)
  from h n p c g q show ?thesis by blast
qed

section \<open>Hexadecimal input\<close>

lemma digits_value_snoc:
  "digits_value base (s @ [c]) = digits_value base s * base + digit_value c"
  by (simp add: digits_value_def)

lemma digits_value_bound:
  "list_all (\<lambda>c. digit_value c < base) s \<Longrightarrow> digits_value base s < base ^ length s"
proof (induction s rule: rev_induct)
  case Nil
  then show ?case by (simp add: digits_value_def)
next
  case (snoc c s)
  then have v: "Suc (digits_value base s) \<le> base ^ length s" and d: "digit_value c < base"
    by simp_all
  from v have "Suc (digits_value base s) * base \<le> base ^ length s * base"
    by (rule mult_le_mono1)
  moreover from d have "digits_value base s * base + digit_value c < Suc (digits_value base s) * base"
    by simp
  ultimately show ?case by (simp add: digits_value_snoc mult.commute)
qed

lemma digits_value_zeros:
  "digits_value base (replicate k (CHR ''0'') @ s) = digits_value base s"
proof -
  have "foldl (\<lambda>a c. a * base + digit_value c) 0 (replicate k (CHR ''0'')) = 0"
    by (induction k) (simp_all add: digit_value_def)
  then show ?thesis by (simp add: digits_value_def)
qed

lemma bin_digits_bits: "list_all (\<lambda>ch. ch \<in> set ''01'') (bin_digits n)"
  by (induction n rule: bin_digits.induct) (subst bin_digits.simps, simp add: bit_char_def)

lemma bin_digits_nonempty: "bin_digits n \<noteq> []"
  by (subst bin_digits.simps) simp

lemma digit_value_bit_char: "d < 2 \<Longrightarrow> digit_value (bit_char d) = d"
  by (auto simp: bit_char_def digit_value_def)

lemma bin_digits_value: "digits_value 2 (bin_digits n) = n"
proof (induction n rule: bin_digits.induct)
  case (1 n)
  show ?case
  proof (cases "n < 2")
    case True
    then show ?thesis
      by (subst bin_digits.simps) (simp add: digits_value_def digit_value_bit_char)
  next
    case False
    with 1 have "digits_value 2 (bin_digits (n div 2)) = n div 2" by simp
    with False show ?thesis
      by (subst bin_digits.simps) (simp add: digits_value_snoc digit_value_bit_char)
  qed
qed

lemma bin_digits_length: "n < 2 ^ k \<Longrightarrow> 0 < k \<Longrightarrow> length (bin_digits n) \<le> k"
proof (induction n arbitrary: k rule: bin_digits.induct)
  case (1 n)
  show ?case
  proof (cases "n < 2")
    case True
    with 1 show ?thesis by (subst bin_digits.simps) simp
  next
    case False
    from "1.prems" obtain j where k: "k = Suc j" by (cases k) auto
    from False "1.prems" k have j: "0 < j" by (cases j) auto
    from "1.prems" k have "n div 2 < 2 ^ j" by auto
    from "1.IH" [OF False this j] k False show ?thesis
      by (subst bin_digits.simps) simp
  qed
qed

lemma py_bin_digits: "py_slice_from (py_bin (int v)) 2 = bin_digits v"
  by (simp add: py_bin_def py_slice_from_def py_slice_def py_index_def)

lemma py_zfill_bits:
  "s \<noteq> [] \<Longrightarrow> list_all (\<lambda>ch. ch \<in> set ''01'') s \<Longrightarrow>
     py_zfill s w = replicate (w - length s) (CHR ''0'') @ s"
  by (cases s) (auto simp: py_zfill_def)

lemma hex_to_binary_value:
  assumes "is_hex s"
  shows "hex_to_binary s =
           Some (replicate (length s * 4 - length (bin_digits (digits_value 16 s))) (CHR ''0'') @
                 bin_digits (digits_value 16 s))"
    and "length (bin_digits (digits_value 16 s)) \<le> length s * 4"
proof -
  from assms have ne: "s \<noteq> []" and dg: "list_all (\<lambda>c. digit_value c < 16) s"
    using is_hex_digits by blast+
  show "hex_to_binary s =
           Some (replicate (length s * 4 - length (bin_digits (digits_value 16 s))) (CHR ''0'') @
                 bin_digits (digits_value 16 s))"
    using assms
    by (simp add: hex_to_binary_hex py_bin_digits
        py_zfill_bits [OF bin_digits_nonempty bin_digits_bits])
  have "digits_value 16 s < 16 ^ length s" using dg by (rule digits_value_bound)
  also have "(16::nat) ^ length s = 2 ^ (length s * 4)"
  proof -
    have "(16::nat) ^ length s = (2 ^ 4) ^ length s" by simp
    also have "\<dots> = 2 ^ (4 * length s)" by (simp only: power_mult)
    finally show ?thesis by (simp add: mult.commute)
  qed
  finally show "length (bin_digits (digits_value 16 s)) \<le> length s * 4"
    using ne by (intro bin_digits_length) simp_all
qed

lemma dropWhile_hd: "s \<noteq> [] \<Longrightarrow> \<not> P (hd s) \<Longrightarrow> dropWhile P s = s"
  by (cases s) simp_all

lemma py_strip_id: "s \<noteq> [] \<Longrightarrow> \<not> py_isspace (hd s) \<Longrightarrow> \<not> py_isspace (last s) \<Longrightarrow> py_strip s = s"
  by (simp add: py_strip_def dropWhile_hd hd_rev)

lemma hex_char_plain:
  "c \<in> HEX_CHARS \<Longrightarrow> \<not> py_isspace c \<and> c \<noteq> CHR '' '' \<and> c \<noteq> CHR ''-'' \<and> c \<noteq> CHR ''_''"
  by (auto simp: HEX_CHARS_def py_isspace_def)

lemma py_remove_id: "c \<notin> set s \<Longrightarrow> py_remove c s = s"
  by (simp add: py_remove_def filter_id_conv) blast

lemma cleaned_0x_hex:
  assumes "is_hex H"
  shows "cleaned (''0x'' @ H) = H"
proof -
  from assms have ne: "H \<noteq> []" and hx: "\<forall>c \<in> set H. c \<in> HEX_CHARS"
    by (auto simp: is_hex_def list_all_iff)
  from ne hx have "last H \<in> HEX_CHARS" by simp
  then have "\<not> py_isspace (last (''0x'' @ H))"
    using ne hex_char_plain by simp
  moreover have "\<not> py_isspace (hd (''0x'' @ H))" by (simp add: py_isspace_def)
  ultimately have strip: "clean_input (''0x'' @ H) = ''0x'' @ H"
    by (simp add: clean_input_def py_strip_id)
  have "CHR '' '' \<notin> set (''0x'' @ H)" "CHR ''-'' \<notin> set (''0x'' @ H)"
       "CHR ''_'' \<notin> set (''0x'' @ H)"
    using hx hex_char_plain by auto
  then have rm: "py_remove (CHR ''_'') (py_remove (CHR ''-'') (py_remove (CHR '' '') (''0x'' @ H)))
      = ''0x'' @ H"
    by (simp add: py_remove_id)
  show ?thesis
    unfolding cleaned_def strip Let_def rm
    by (simp add: py_startswith_def py_slice_from_def py_slice_def py_index_def)
qed

lemma process_input_0A1: "process_input ''0x0A1'' = (Some ''000010100001'', None)"
proof -
  have c: "cleaned ''0x0A1'' = ''0A1''" by (simp add: cleaned_eval)
  have v: "digits_value 16 ''0A1'' = 161" by (simp add: digits_value_def digit_value_def)
  have d: "bin_digits 161 = ''10100001''" by (simp add: bin_digits.simps bit_char_def)
  have z: "py_zfill ''10100001'' 12 = ''000010100001''"
    by (simp add: py_zfill_def eval_nat_numeral)
  have s: "py_slice_from (py_bin 161) 2 = ''10100001''"
    by (simp add: py_bin_def d py_slice_from_def py_slice_def py_index_def)
  show ?thesis
    unfolding process_input_cases c v
    by (simp add: is_binary_def is_hex_def HEX_CHARS_def s z)
qed

text \<open>
  Claim C3, amended. For every valid hex string \<open>H\<close> with at least one digit other than
  \<open>0\<close> and \<open>1\<close>, \<open>process_input("0x" + H)\<close> succeeds with a bit string of exactly
  \<open>4 * len(H)\<close> bits whose value in base 2 is the value of \<open>H\<close> in base 16. A string \<open>H\<close>
  of the digits \<open>0\<close> and \<open>1\<close> only is read as a binary literal, also after the prefix:
  the result is \<open>H\<close> itself.
\<close>

theorem hex_input_round_trip:
  assumes "is_hex H"
  shows "if is_binary H then process_input (''0x'' @ H) = (Some H, None)
         else (\<exists>bits v. process_input (''0x'' @ H) = (Some bits, None) \<and>
                 length bits = 4 * length H \<and>
                 py_int bits 2 = Inr v \<and> py_int H 16 = Inr v)"
proof (cases "is_binary H")
  case True
  then show ?thesis
    unfolding process_input_cases cleaned_0x_hex [OF assms] by simp
next
  case False
  let ?v = "digits_value 16 H"
  let ?bits = "replicate (length H * 4 - length (bin_digits ?v)) (CHR ''0'') @ bin_digits ?v"
  have p: "process_input (''0x'' @ H) = (Some ?bits, None)"
    unfolding process_input_def cleaned_0x_hex [OF assms] Let_def
    using assms False hex_to_binary_value(1) [OF assms] by simp
  have l: "length ?bits = 4 * length H"
    using hex_to_binary_value(2) [OF assms] by simp
  have zeros: "list_all (\<lambda>ch. ch \<in> set ''01'') (replicate k (CHR ''0''))" for k
    by (induction k) simp_all
  have "list_all (\<lambda>ch. ch \<in> set ''01'') ?bits"
    using zeros bin_digits_bits [of ?v] by (simp only: list_all_append simp_thms)
  moreover have "?bits \<noteq> []" by (simp add: bin_digits_nonempty)
  ultimately have "py_int ?bits 2 = Inr (int (digits_value 2 ?bits))"
    by (rule py_int_bits [rotated])
  then have b: "py_int ?bits 2 = Inr (int ?v)"
    by (simp add: digits_value_zeros bin_digits_value)
  have h: "py_int H 16 = Inr (int ?v)" using assms by (rule py_int_hex)
  from p l b h have "\<exists>bits v. process_input (''0x'' @ H) = (Some bits, None) \<and>
      length bits = 4 * length H \<and> py_int bits 2 = Inr v \<and> py_int H 16 = Inr v"
    by blast
  with False show ?thesis by (simp only: if_False)
qed

theorem hex_input_round_trip_witness:
  "is_hex ''0A1'' \<and> \<not> is_binary ''0A1'' \<and>
   process_input ''0x0A1'' = (Some ''000010100001'', None) \<and>
   length ''000010100001'' = 4 * length ''0A1'' \<and>
   py_int ''000010100001'' 2 = Inr 161 \<and> py_int ''0A1'' 16 = Inr 161"
proof -
  have h: "is_hex ''0A1''" by (simp add: is_hex_def HEX_CHARS_def)
  have nb: "\<not> is_binary ''0A1''" by (simp add: is_binary_def)
  note p = process_input_0A1
  have v: "py_int ''0A1'' 16 = Inr 161" by (simp add: py_int_eval)
  from hex_input_round_trip [OF h] nb obtain bits v where
    "process_input (''0x'' @ ''0A1'') = (Some bits, None)" "length bits = 4 * length ''0A1''"
    "py_int bits 2 = Inr v" "py_int ''0A1'' 16 = Inr v"
    by auto
  with p v have "py_int ''000010100001'' 2 = Inr 161" by simp
  with h nb p v show ?thesis by simp
qed

text \<open>
  Claim C3 as stated fails for a hex string of binary digits: \<open>0x10\<close> gives the two bits
  \<open>10\<close>, of value 2, and not the eight bits of the value 16.
\<close>

theorem hex_prefix_on_binary_digits:
  "is_hex ''10'' \<and> process_input ''0x10'' = (Some ''10'', None) \<and>
   length ''10'' \<noteq> 4 * length ''10'' \<and>
   py_int ''10'' 2 = Inr 2 \<and> py_int ''10'' 16 = Inr 16"
proof -
  have c: "cleaned ''0x10'' = ''10''" by (simp add: cleaned_eval)
  have p: "process_input ''0x10'' = (Some ''10'', None)"
    unfolding process_input_cases c by (simp add: is_binary_def)
  have h: "is_hex ''10''" by (simp add: is_hex_def HEX_CHARS_def)
  have v: "py_int ''10'' 2 = Inr 2" "py_int ''10'' 16 = Inr 16" by (simp_all add: py_int_eval)
  from c p h v show ?thesis by simp
qed

section \<open>Field extraction\<close>

lemma py_slice_list_all: "list_all P b \<Longrightarrow> list_all P (py_slice b a c)"
proof -
  assume "list_all P b"
  moreover have "set (py_slice b a c) \<subseteq> set b"
    using set_take_subset set_drop_subset unfolding py_slice_def Let_def by fast
  ultimately show ?thesis unfolding list_all_iff by blast
qed

lemma bits_to_int_bits:
  "list_all (\<lambda>ch. ch \<in> set ''01'') s \<Longrightarrow> bits_to_int s = Inr (int (digits_value 2 s))"
  by (cases "s = []") (simp_all add: bits_to_int_def py_int_bits digits_value_def)

lemma extract_fields_loop_bits:
  assumes "list_all (\<lambda>ch. ch \<in> set ''01'') b"
  shows "extract_fields_loop b fs result =
           Inr (foldl (\<lambda>d (field, (start, end')). dict_set d field (field_of_bits b start end'))
                  result fs)"
proof (induction fs arbitrary: result)
  case Nil
  show ?case by simp
next
  case (Cons f fs)
  obtain field start end' where f: "f = (field, (start, end'))" by (cases f) auto
  have "bits_to_int (extract_bits b start end') =
          Inr (int (digits_value 2 (extract_bits b start end')))"
    using assms by (simp add: bits_to_int_bits extract_bits_def py_slice_list_all)
  then show ?case
    by (simp add: f Let_def Cons.IH field_of_bits_def)
qed

lemma set_dict_set: "set (dict_set d k v) \<subseteq> insert (k, v) (set d)"
  by (induction d) (auto split: if_splits)

lemma keys_dict_set: "fst ` set (dict_set d k v) = insert k (fst ` set d)"
proof (induction d)
  case Nil
  show ?case by simp
next
  case (Cons p d)
  obtain k' v' where p: "p = (k', v')" by (cases p) auto
  show ?case
  proof (cases "k' = k")
    case True
    then show ?thesis by (simp add: p)
  next
    case False
    then show ?thesis using Cons.IH by (simp add: p insert_commute)
  qed
qed

lemma foldl_dict_set_entries:
  "(name, fv) \<in> set (foldl (\<lambda>d (field, (start, end')). dict_set d field (g start end')) acc fs) \<Longrightarrow>
     (name, fv) \<in> set acc \<or> (\<exists>start end'. (name, (start, end')) \<in> set fs \<and> fv = g start end')"
proof (induction fs arbitrary: acc)
  case Nil
  then show ?case by simp
next
  case (Cons f fs)
  obtain field start end' where f: "f = (field, (start, end'))" by (cases f) auto
  from Cons.prems have
    "(name, fv) \<in> set (foldl (\<lambda>d (field, (start, end')). dict_set d field (g start end'))
        (dict_set acc field (g start end')) fs)"
    by (simp add: f)
  from Cons.IH [OF this] show ?case
  proof
    assume "(name, fv) \<in> set (dict_set acc field (g start end'))"
    with set_dict_set [of acc field "g start end'"]
    have "(name, fv) = (field, g start end') \<or> (name, fv) \<in> set acc" by auto
    then show ?thesis by (auto simp: f)
  next
    assume "\<exists>start end'. (name, (start, end')) \<in> set fs \<and> fv = g start end'"
    then show ?thesis by auto
  qed
qed

lemma foldl_dict_set_keys:
  "fst ` set (foldl (\<lambda>d (field, (start, end')). dict_set d field (g start end')) acc fs) =
     fst ` set acc \<union> fst ` set fs"
proof (induction fs arbitrary: acc)
  case Nil
  show ?case by simp
next
  case (Cons f fs)
  obtain field start end' where f: "f = (field, (start, end'))" by (cases f) auto
  show ?case by (simp add: f Cons.IH keys_dict_set)
qed

lemma extract_fields_bits:
  assumes "list_all (\<lambda>ch. ch \<in> set ''01'') b"
  shows "\<exists>res. extract_fields b fmt = Inr res \<and>
           fst ` set res = fst ` set (fmt_fields fmt) \<and>
           (\<forall>(name, fv) \<in> set res.
              \<exists>start end'. (name, (start, end')) \<in> set (fmt_fields fmt) \<and>
                fv = field_of_bits b start end')"
proof -
  let ?res = "foldl (\<lambda>d (field, (start, end')). dict_set d field (field_of_bits b start end'))
                [] (fmt_fields fmt)"
  have "extract_fields b fmt = Inr ?res"
    by (simp add: extract_fields_def extract_fields_loop_bits [OF assms])
  moreover have "fst ` set ?res = fst ` set (fmt_fields fmt)"
    by (simp add: foldl_dict_set_keys)
  moreover have "\<forall>(name, fv) \<in> set ?res.
      \<exists>start end'. (name, (start, end')) \<in> set (fmt_fields fmt) \<and> fv = field_of_bits b start end'"
    using foldl_dict_set_entries [of _ _ "field_of_bits b" "[]" "fmt_fields fmt"] by auto
  ultimately show ?thesis by blast
qed

lemma py_slice_past_end:
  "int (length b) \<le> e \<Longrightarrow> py_slice b s (e + 1) = py_slice b s (int (length b))"
  by (simp add: py_slice_def py_index_def)

lemma py_slice_to_end_drop: "0 \<le> s \<Longrightarrow> py_slice b s (int (length b)) = drop (nat s) b"
  by (simp add: py_slice_def py_index_def)

lemma py_slice_to_end_short:
  "int (length b) \<le> e \<Longrightarrow> s \<le> e \<Longrightarrow> int (length (py_slice b s (int (length b)))) < e - s + 1"
  by (auto simp: py_slice_def py_index_def)

lemma py_slice_length: "length (py_slice b a c) \<le> length b"
  by (simp add: py_slice_def Let_def)

lemma field_of_bits_truncated:
  assumes "fv = field_of_bits b start end'"
  shows "fv_range fv = (start, end')"
    and "fv_len fv = end' - start + 1"
    and "int (length b) \<le> end' \<Longrightarrow> fv_bits fv = py_slice b start (int (length b))"
    and "fv_bits fv = [] \<Longrightarrow> fv_int fv = 0"
    and "int (length b) \<le> end' \<Longrightarrow> start \<le> end' \<Longrightarrow> int (length (fv_bits fv)) < fv_len fv"
    and "int (length b) \<le> end' \<Longrightarrow> 0 \<le> start \<Longrightarrow> fv_bits fv = drop (nat start) b"
proof -
  show "fv_range fv = (start, end')" "fv_len fv = end' - start + 1"
    by (simp_all add: assms field_of_bits_def)
  show "fv_bits fv = [] \<Longrightarrow> fv_int fv = 0"
    by (simp add: assms field_of_bits_def digits_value_def)
  show a: "fv_bits fv = py_slice b start (int (length b))" if "int (length b) \<le> end'"
    using that by (simp add: assms field_of_bits_def extract_bits_def py_slice_past_end)
  show "int (length (fv_bits fv)) < fv_len fv" if "int (length b) \<le> end'" "start \<le> end'"
    using py_slice_to_end_short [OF that] a [OF that(1)]
    by (simp add: assms field_of_bits_def)
  show "fv_bits fv = drop (nat start) b" if "int (length b) \<le> end'" "0 \<le> start"
    using a [OF that(1)] that(2) by (simp add: py_slice_to_end_drop)
qed


lemmas extract_eval = extract_fields_def extract_bits_def bits_to_int_def py_slice_def
  py_index_def py_format_X_def hex_digits.simps hex_char_def

lemma extract_fields_101_A_B:
  "extract_fields ''101''
     \<lparr>bit_length = 3, fmt_fields = [(''A'', (1, 5)), (''B'', (7, 9))],
      parity_coverage = NoCoverage\<rparr> =
   Inr [(''A'', \<lparr>fv_bits = ''01'', fv_int = 1, fv_hex = ''0x1'', fv_len = 5, fv_range = (1, 5)\<rparr>),
        (''B'', \<lparr>fv_bits = [], fv_int = 0, fv_hex = ''0x0'', fv_len = 3, fv_range = (7, 9)\<rparr>)]"
  by (simp add: extract_eval py_int_eval)

text \<open>
  Claim C9. On a bit string \<open>extract_fields\<close> always returns normally. For a field whose
  end is at or past the length of the string, the reported bits are \<open>b[start:len(b)]\<close>
  (possibly empty, with value 0), while the reported \<open>len\<close> is still \<open>end - start + 1\<close>,
  which is larger than the number of reported bits whenever \<open>start \<le> end\<close>.
\<close>

theorem extract_fields_truncates_silently:
  assumes "list_all (\<lambda>ch. ch \<in> set ''01'') b"
  shows "\<exists>res. extract_fields b fmt = Inr res \<and>
           fst ` set res = fst ` set (fmt_fields fmt) \<and>
           (\<forall>(name, fv) \<in> set res.
              case fv_range fv of (start, end') \<Rightarrow>
                (name, (start, end')) \<in> set (fmt_fields fmt) \<and>
                fv_len fv = end' - start + 1 \<and>
                (int (length b) \<le> end' \<longrightarrow>
                   fv_bits fv = py_slice b start (int (length b)) \<and>
                   (0 \<le> start \<longrightarrow> fv_bits fv = drop (nat start) b) \<and>
                   (fv_bits fv = [] \<longrightarrow> fv_int fv = 0) \<and>
                   (start \<le> end' \<longrightarrow> int (length (fv_bits fv)) < fv_len fv)))"
proof -
  from extract_fields_bits [OF assms, of fmt] obtain res where
    r: "extract_fields b fmt = Inr res" and
    k: "fst ` set res = fst ` set (fmt_fields fmt)" and
    e: "\<forall>(name, fv) \<in> set res.
          \<exists>start end'. (name, (start, end')) \<in> set (fmt_fields fmt) \<and>
            fv = field_of_bits b start end'"
    by blast
  have "\<forall>(name, fv) \<in> set res.
          case fv_range fv of (start, end') \<Rightarrow>
                (name, (start, end')) \<in> set (fmt_fields fmt) \<and>
                fv_len fv = end' - start + 1 \<and>
                (int (length b) \<le> end' \<longrightarrow>
                   fv_bits fv = py_slice b start (int (length b)) \<and>
                   (0 \<le> start \<longrightarrow> fv_bits fv = drop (nat start) b) \<and>
                   (fv_bits fv = [] \<longrightarrow> fv_int fv = 0) \<and>
                   (start \<le> end' \<longrightarrow> int (length (fv_bits fv)) < fv_len fv))"
  proof (rule ballI)
    fix x assume x: "x \<in> set res"
    obtain name fv where nf: "x = (name, fv)" by (cases x) auto
    from e x nf obtain start end' where
      m: "(name, (start, end')) \<in> set (fmt_fields fmt)" and fv: "fv = field_of_bits b start end'"
      by blast
    note f = field_of_bits_truncated [OF fv]
    show "case x of (name, fv) \<Rightarrow>
          case fv_range fv of (start, end') \<Rightarrow>
                (name, (start, end')) \<in> set (fmt_fields fmt) \<and>
                fv_len fv = end' - start + 1 \<and>
                (int (length b) \<le> end' \<longrightarrow>
                   fv_bits fv = py_slice b start (int (length b)) \<and>
                   (0 \<le> start \<longrightarrow> fv_bits fv = drop (nat start) b) \<and>
                   (fv_bits fv = [] \<longrightarrow> fv_int fv = 0) \<and>
                   (start \<le> end' \<longrightarrow> int (length (fv_bits fv)) < fv_len fv))"
      unfolding nf prod.case f(1) using m f(2-6) by blast
  qed
  with r k show ?thesis by (intro exI conjI)
qed

theorem extract_fields_truncates_silently_witness:
  "list_all (\<lambda>ch. ch \<in> set ''01'') ''101'' \<and>
   extract_fields ''101''
     \<lparr>bit_length = 3, fmt_fields = [(''A'', (1, 5)), (''B'', (7, 9))],
      parity_coverage = NoCoverage\<rparr> =
   Inr [(''A'', \<lparr>fv_bits = ''01'', fv_int = 1, fv_hex = ''0x1'', fv_len = 5, fv_range = (1, 5)\<rparr>),
        (''B'', \<lparr>fv_bits = [], fv_int = 0, fv_hex = ''0x0'', fv_len = 3, fv_range = (7, 9)\<rparr>)] \<and>
   py_slice ''101'' 1 (int (length ''101'')) = ''01'' \<and> int (length ''01'') < 5"
proof -
  let ?fmt = "\<lparr>bit_length = 3, fmt_fields = [(''A'', (1, 5)), (''B'', (7, 9))],
      parity_coverage = NoCoverage\<rparr>"
  let ?a = "\<lparr>fv_bits = ''01'', fv_int = 1, fv_hex = ''0x1'', fv_len = 5, fv_range = (1, 5)\<rparr>"
  have h: "list_all (\<lambda>ch. ch \<in> set ''01'') ''101''" by simp
  note e = extract_fields_101_A_B
  from extract_fields_truncates_silently [OF h, of ?fmt] obtain res where
    r: "extract_fields ''101'' ?fmt = Inr res" and
    p: "\<forall>(name, fv) \<in> set res.
          case fv_range fv of (start, end') \<Rightarrow>
            (name, (start, end')) \<in> set (fmt_fields ?fmt) \<and>
            fv_len fv = end' - start + 1 \<and>
            (int (length ''101'') \<le> end' \<longrightarrow>
               fv_bits fv = py_slice ''101'' start (int (length ''101'')) \<and>
               (0 \<le> start \<longrightarrow> fv_bits fv = drop (nat start) ''101'') \<and>
               (fv_bits fv = [] \<longrightarrow> fv_int fv = 0) \<and>
               (start \<le> end' \<longrightarrow> int (length (fv_bits fv)) < fv_len fv))"
    by blast
  from r e have "(''A'', ?a) \<in> set res" by auto
  from bspec [OF p this] have "case fv_range ?a of (start, end') \<Rightarrow>
            (''A'', (start, end')) \<in> set (fmt_fields ?fmt) \<and>
            fv_len ?a = end' - start + 1 \<and>
            (int (length ''101'') \<le> end' \<longrightarrow>
               fv_bits ?a = py_slice ''101'' start (int (length ''101'')) \<and>
               (0 \<le> start \<longrightarrow> fv_bits ?a = drop (nat start) ''101'') \<and>
               (fv_bits ?a = [] \<longrightarrow> fv_int ?a = 0) \<and>
               (start \<le> end' \<longrightarrow> int (length (fv_bits ?a)) < fv_len ?a))"
    by (simp only: prod.case)
  then have "py_slice ''101'' 1 (int (length ''101'')) = ''01'' \<and> int (length ''01'') < 5"
    by simp
  with h e show ?thesis by (simp only: simp_thms)
qed

section \<open>Ranges outside the bit string\<close>

lemma field_of_bits_clamped:
  assumes "fv = field_of_bits b start end'"
  shows "fv_range fv = (start, end')"
    and "fv_bits fv = py_slice b start (end' + 1)"
    and "length (fv_bits fv) \<le> length b"
    and "fv_int fv = int (digits_value 2 (fv_bits fv))"
  by (simp_all add: assms field_of_bits_def extract_bits_def py_slice_length)

text \<open>
  Claim C2, amended. For every bit string and every field with inclusive range
  \<open>[start, end]\<close>, field extraction returns normally, also when \<open>end >= len(b)\<close> or
  \<open>start < 0\<close>: there is no out-of-range error. The range is clamped as the slice
  \<open>b[start:end+1]\<close> clamps it (a negative start counts from the end of the string), and
  the clamped substring is decoded as an unsigned binary number.
\<close>

theorem extract_fields_clamps_range:
  assumes "list_all (\<lambda>ch. ch \<in> set ''01'') b"
  shows "\<exists>res. extract_fields b fmt = Inr res \<and>
           fst ` set res = fst ` set (fmt_fields fmt) \<and>
           (\<forall>(name, fv) \<in> set res.
              case fv_range fv of (start, end') \<Rightarrow>
                (name, (start, end')) \<in> set (fmt_fields fmt) \<and>
                fv_bits fv = py_slice b start (end' + 1) \<and>
                length (fv_bits fv) \<le> length b \<and>
                fv_int fv = int (digits_value 2 (fv_bits fv)))"
proof -
  from extract_fields_bits [OF assms, of fmt] obtain res where
    r: "extract_fields b fmt = Inr res" and
    k: "fst ` set res = fst ` set (fmt_fields fmt)" and
    e: "\<forall>(name, fv) \<in> set res.
          \<exists>start end'. (name, (start, end')) \<in> set (fmt_fields fmt) \<and>
            fv = field_of_bits b start end'"
    by blast
  have "\<forall>(name, fv) \<in> set res.
          case fv_range fv of (start, end') \<Rightarrow>
            (name, (start, end')) \<in> set (fmt_fields fmt) \<and>
            fv_bits fv = py_slice b start (end' + 1) \<and>
            length (fv_bits fv) \<le> length b \<and>
            fv_int fv = int (digits_value 2 (fv_bits fv))"
  proof (rule ballI)
    fix x assume x: "x \<in> set res"
    obtain name fv where nf: "x = (name, fv)" by (cases x) auto
    from e x nf obtain start end' where
      m: "(name, (start, end')) \<in> set (fmt_fields fmt)" and fv: "fv = field_of_bits b start end'"
      by blast
    note f = field_of_bits_clamped [OF fv]
    show "case x of (name, fv) \<Rightarrow>
          case fv_range fv of (start, end') \<Rightarrow>
            (name, (start, end')) \<in> set (fmt_fields fmt) \<and>
            fv_bits fv = py_slice b start (end' + 1) \<and>
            length (fv_bits fv) \<le> length b \<and>
            fv_int fv = int (digits_value 2 (fv_bits fv))"
      unfolding nf prod.case f(1) using m f(2-4) by blast
  qed
  with r k show ?thesis by (intro exI conjI)
qed

lemma extract_fields_1101_X_Y:
  "extract_fields ''1101''
     \<lparr>bit_length = 4, fmt_fields = [(''X'', (2, 9)), (''Y'', (- 3, 1))],
      parity_coverage = NoCoverage\<rparr> =
   Inr [(''X'', \<lparr>fv_bits = ''01'', fv_int = 1, fv_hex = ''0x1'', fv_len = 8, fv_range = (2, 9)\<rparr>),
        (''Y'', \<lparr>fv_bits = ''1'', fv_int = 1, fv_hex = ''0x1'', fv_len = 5, fv_range = (- 3, 1)\<rparr>)]"
  by (simp add: extract_eval py_int_eval)

theorem extract_fields_clamps_range_witness:
  "list_all (\<lambda>ch. ch \<in> set ''01'') ''1101'' \<and>
   extract_fields ''1101''
     \<lparr>bit_length = 4, fmt_fields = [(''X'', (2, 9)), (''Y'', (- 3, 1))],
      parity_coverage = NoCoverage\<rparr> =
   Inr [(''X'', \<lparr>fv_bits = ''01'', fv_int = 1, fv_hex = ''0x1'', fv_len = 8, fv_range = (2, 9)\<rparr>),
        (''Y'', \<lparr>fv_bits = ''1'', fv_int = 1, fv_hex = ''0x1'', fv_len = 5, fv_range = (- 3, 1)\<rparr>)] \<and>
   py_slice ''1101'' (- 3) (1 + 1) = ''1'' \<and> int (digits_value 2 ''1'') = 1"
proof -
  let ?fmt = "\<lparr>bit_length = 4, fmt_fields = [(''X'', (2, 9)), (''Y'', (- 3, 1))],
      parity_coverage = NoCoverage\<rparr>"
  let ?y = "\<lparr>fv_bits = ''1'', fv_int = 1, fv_hex = ''0x1'', fv_len = 5, fv_range = (- 3, 1)\<rparr>"
  have h: "list_all (\<lambda>ch. ch \<in> set ''01'') ''1101''" by simp
  note e = extract_fields_1101_X_Y
  from extract_fields_clamps_range [OF h, of ?fmt] obtain res where
    r: "extract_fields ''1101'' ?fmt = Inr res" and
    p: "\<forall>(name, fv) \<in> set res.
          case fv_range fv of (start, end') \<Rightarrow>
            (name, (start, end')) \<in> set (fmt_fields ?fmt) \<and>
            fv_bits fv = py_slice ''1101'' start (end' + 1) \<and>
            length (fv_bits fv) \<le> length ''1101'' \<and>
            fv_int fv = int (digits_value 2 (fv_bits fv))"
    by blast
  from r e have "(''Y'', ?y) \<in> set res" by auto
  from bspec [OF p this] have "case fv_range ?y of (start, end') \<Rightarrow>
            (''Y'', (start, end')) \<in> set (fmt_fields ?fmt) \<and>
            fv_bits ?y = py_slice ''1101'' start (end' + 1) \<and>
            length (fv_bits ?y) \<le> length ''1101'' \<and>
            fv_int ?y = int (digits_value 2 (fv_bits ?y))"
    by (simp only: prod.case)
  then have "py_slice ''1101'' (- 3) (1 + 1) = ''1'' \<and> int (digits_value 2 ''1'') = 1"
    by simp
  with h e show ?thesis by (simp only: simp_thms)
qed

text \<open>
  Claim C2 as stated asks for an out-of-range error. On the bit string \<open>101\<close>, a field
  \<open>[2, 7]\<close> that ends past the string and a field \<open>[-2, 2]\<close> that starts below zero are both
  decoded, from the clamped slices \<open>1\<close> and \<open>01\<close>, and no error is returned.
\<close>

theorem extract_fields_out_of_range_is_decoded:
  "extract_fields ''101''
     \<lparr>bit_length = 3, fmt_fields = [(''A'', (2, 7)), (''N'', (- 2, 2))],
      parity_coverage = NoCoverage\<rparr> =
   Inr [(''A'', \<lparr>fv_bits = ''1'', fv_int = 1, fv_hex = ''0x1'', fv_len = 6, fv_range = (2, 7)\<rparr>),
        (''N'', \<lparr>fv_bits = ''01'', fv_int = 1, fv_hex = ''0x1'', fv_len = 5, fv_range = (- 2, 2)\<rparr>)]"
  by (simp add: extract_eval py_int_eval)

end
